theory Spec2Isabelle
  imports Main "HOL-Library.AList"
begin

section \<open>Python values used by the backend\<close>

text \<open>
  Strings are \<^typ>\<open>string\<close>. The three string methods the backend calls are modelled on
  ASCII text, which is all the code applies them to: \<^verbatim>\<open>str.lower\<close> on an event type,
  \<^verbatim>\<open>str(int)\<close> inside an f-string and \<^verbatim>\<open>str.strip\<close> on the key files.
\<close>

definition lower_char :: "char \<Rightarrow> char" where
  "lower_char c =
     (let n = (of_char c :: nat) in if 65 \<le> n \<and> n \<le> 90 then char_of (n + 32) else c)"

definition lower :: "string \<Rightarrow> string" where
  "lower s = map lower_char s"

definition digit_char :: "nat \<Rightarrow> char" where
  "digit_char d = char_of (48 + d)"

function str_nat :: "nat \<Rightarrow> string" where
  "str_nat n = (if n < 10 then [digit_char n] else str_nat (n div 10) @ [digit_char (n mod 10)])"
  by pat_completeness auto
termination
  by (relation "measure (\<lambda>n. n)") auto

declare str_nat.simps [simp del]

definition str_int :: "int \<Rightarrow> string" where
  "str_int i = (if i < 0 then CHR ''-'' # str_nat (nat (- i)) else str_nat (nat i))"

definition isspace :: "char \<Rightarrow> bool" where
  "isspace c = (let n = (of_char c :: nat) in (9 \<le> n \<and> n \<le> 13) \<or> (28 \<le> n \<and> n \<le> 32))"

definition strip :: "string \<Rightarrow> string" where
  "strip s = rev (dropWhile isspace (rev (dropWhile isspace s)))"

text \<open>
  A decoded JSON body (\<^verbatim>\<open>await request.json()\<close>). JSON \<^verbatim>\<open>true\<close>/\<^verbatim>\<open>false\<close> are the Python
  ints 1 and 0 (\<^verbatim>\<open>bool\<close> is a subclass of \<^verbatim>\<open>int\<close> and \<^verbatim>\<open>True == 1\<close>, also as a dict key);
  numbers with a fraction are left out. An object is a dict in insertion order.
\<close>

datatype json =
    JNull
  | JNum int
  | JStr string
  | JArr "json list"
  | JObj "(string \<times> json) list"

text \<open>\<^verbatim>\<open>d.get(key, default)\<close>\<close>

definition dict_get :: "('k \<times> 'v) list \<Rightarrow> 'k \<Rightarrow> 'v \<Rightarrow> 'v" where
  "dict_get d k dflt = (case map_of d k of Some v \<Rightarrow> v | None \<Rightarrow> dflt)"

text \<open>Lists and dicts are unhashable: using one as a dict key raises \<^verbatim>\<open>TypeError\<close>.\<close>

fun hashable :: "json \<Rightarrow> bool" where
  "hashable (JArr _) = False"
| "hashable (JObj _) = False"
| "hashable _ = True"

text \<open>\<^verbatim>\<open>x[:50]\<close> is defined on strings and lists; on \<^verbatim>\<open>None\<close> or an int it raises \<^verbatim>\<open>TypeError\<close>.\<close>

fun sliceable :: "json \<Rightarrow> bool" where
  "sliceable (JStr _) = True"
| "sliceable (JArr _) = True"
| "sliceable _ = False"

datatype exn =
    TypeError
  | FileNotFoundError
  | OtherError string

section \<open>push.py: the push notification service\<close>

subsection \<open>State and environment\<close>

text \<open>
  The module's state: the dict \<^verbatim>\<open>push_subscriptions\<close> (in insertion order, which is the order
  \<^verbatim>\<open>.items()\<close> iterates in), the two key files under \<^verbatim>\<open>/tmp\<close>, and a trace of what the
  module has asked of its collaborators: how many key pairs it has had generated, how often it
  has read a key file, and the calls of \<^verbatim>\<open>webpush\<close> it has made.
\<close>

record sub_data =
  subscription :: "(string \<times> json) list"
  user_id :: string

record push_payload =
  title :: string
  body :: string
  url :: string
  tag :: string
  eventId :: "int option"

text \<open>\<^verbatim>\<open>json.dumps(d)\<close>: the text is a function of the dict, kept as the dict it serialises.\<close>

datatype 'a json_text = Json_dumps (json_loads: 'a)

record webpush_call =
  subscription_info :: "(string \<times> json) list"
  data :: "push_payload json_text"
  vapid_private_key :: string
  vapid_claims :: "(string \<times> string) list"

record push_state =
  push_subscriptions :: "(json \<times> sub_data) list"
  vapid_private_file :: "string option"
  vapid_public_file :: "string option"
  keys_generated :: nat
  key_file_reads :: nat
  webpush_calls :: "webpush_call list"

text \<open>
  What a call of \<^verbatim>\<open>webpush\<close> does: it returns, or raises \<^verbatim>\<open>WebPushException\<close> carrying the push
  service's response (or \<^verbatim>\<open>None\<close>), or raises something else.
\<close>

record response =
  status_code :: nat

datatype push_outcome =
    Delivered
  | WebPushException "response option"
  | OtherException

text \<open>
  The collaborators: the key provider (\<^verbatim>\<open>ec.generate_private_key\<close> and the two encodings of the
  pair it returns; the \<open>n\<close>-th request gets \<open>ec_generate n\<close>), the push transport, and
  \<^verbatim>\<open>settings.host\<close>.
\<close>

record key_material =
  private_pem :: string
  public_key_b64 :: string

record push_env =
  ec_generate :: "nat \<Rightarrow> key_material"
  webpush :: "webpush_call \<Rightarrow> push_outcome"
  host :: string

subsection \<open>Key files\<close>

definition generate_vapid_keys :: "push_env \<Rightarrow> push_state \<Rightarrow> push_state" where
  "generate_vapid_keys env s =
     (if vapid_private_file s \<noteq> None \<and> vapid_public_file s \<noteq> None then s
      else
        let private_key = ec_generate env (keys_generated s);
            s1 = s\<lparr>keys_generated := Suc (keys_generated s)\<rparr>;
            s2 = s1\<lparr>vapid_private_file := Some (private_pem private_key)\<rparr>
        in s2\<lparr>vapid_public_file := Some (public_key_b64 private_key)\<rparr>)"

definition read_text :: "string option \<Rightarrow> exn + string" where
  "read_text f = (case f of None \<Rightarrow> Inl FileNotFoundError | Some t \<Rightarrow> Inr t)"

definition count_read :: "push_state \<Rightarrow> push_state" where
  "count_read s = s\<lparr>key_file_reads := Suc (key_file_reads s)\<rparr>"

definition get_vapid_public_key :: "push_env \<Rightarrow> push_state \<Rightarrow> (exn + string) \<times> push_state" where
  "get_vapid_public_key env s =
     (let s1 = count_read (generate_vapid_keys env s)
      in (case read_text (vapid_public_file s1) of
            Inl e \<Rightarrow> (Inl e, s1)
          | Inr t \<Rightarrow> (Inr (strip t), s1)))"

definition get_vapid_private_key :: "push_env \<Rightarrow> push_state \<Rightarrow> (exn + string) \<times> push_state" where
  "get_vapid_private_key env s =
     (let s1 = count_read (generate_vapid_keys env s)
      in (case read_text (vapid_private_file s1) of
            Inl e \<Rightarrow> (Inl e, s1)
          | Inr t \<Rightarrow> (Inr (strip t), s1)))"

subsection \<open>The subscription store\<close>

text \<open>
  \<^verbatim>\<open>subscribe\<close> reads the endpoint with the default \<^verbatim>\<open>""\<close> and assigns to the dict. The only
  statement of its \<^verbatim>\<open>try\<close> block that can raise is the assignment, on an unhashable key; the
  handler returns \<^verbatim>\<open>False\<close>. An assignment to a key already in the dict keeps the key's place.
\<close>

definition subscribe :: "(string \<times> json) list \<Rightarrow> string \<Rightarrow> push_state \<Rightarrow> bool \<times> push_state" where
  "subscribe info uid s =
     (let endpoint = dict_get info ''endpoint'' (JStr '''')
      in if hashable endpoint
         then (True,
               s\<lparr>push_subscriptions :=
                   AList.update endpoint \<lparr>subscription = info, user_id = uid\<rparr> (push_subscriptions s)\<rparr>)
         else (False, s))"

text \<open>
  \<^verbatim>\<open>unsubscribe\<close>: the membership test raises on an unhashable key; the log line after the
  \<^verbatim>\<open>del\<close> slices the endpoint, which raises on a key that is not a string, the entry being
  deleted already.
\<close>

definition unsubscribe :: "json \<Rightarrow> push_state \<Rightarrow> (exn + bool) \<times> push_state" where
  "unsubscribe endpoint s =
     (if \<not> hashable endpoint then (Inl TypeError, s)
      else if endpoint \<in> fst ` set (push_subscriptions s)
      then (let s1 = s\<lparr>push_subscriptions := AList.delete endpoint (push_subscriptions s)\<rparr>
            in if sliceable endpoint then (Inr True, s1) else (Inl TypeError, s1))
      else (Inr False, s))"

subsection \<open>Dispatch\<close>

text \<open>
  The truth value of \<^verbatim>\<open>e.response\<close> in \<^verbatim>\<open>if e.response and ...\<close>: \<^verbatim>\<open>None\<close> is false, and a
  \<^verbatim>\<open>requests.Response\<close> (what \<^verbatim>\<open>pywebpush\<close> attaches) defines \<^verbatim>\<open>__bool__\<close> as its property
  \<^verbatim>\<open>ok\<close>, which is false exactly for the status codes 400 to 599.
\<close>

definition response_ok :: "response \<Rightarrow> bool" where
  "response_ok r = (\<not> (400 \<le> status_code r \<and> status_code r < 600))"

definition truthy_response :: "response option \<Rightarrow> bool" where
  "truthy_response r = (case r of None \<Rightarrow> False | Some x \<Rightarrow> response_ok x)"

definition expired :: "response option \<Rightarrow> bool" where
  "expired r =
     (truthy_response r \<and> (case r of None \<Rightarrow> False | Some x \<Rightarrow> status_code x = 404 \<or> status_code x = 410))"

text \<open>
  The loop over \<^verbatim>\<open>push_subscriptions.items()\<close>, with \<^verbatim>\<open>failed_endpoints\<close> as accumulator. The
  private key is read (and on the first use generated) while the arguments of \<^verbatim>\<open>webpush\<close> are
  evaluated, inside the \<^verbatim>\<open>try\<close>. Every exception of the body is caught, so the loop reaches
  every item.
\<close>

fun sweep ::
  "push_env \<Rightarrow> push_payload json_text \<Rightarrow> (string \<times> string) list \<Rightarrow> (json \<times> sub_data) list \<Rightarrow>
   push_state \<Rightarrow> json list \<Rightarrow> push_state \<times> json list" where
  "sweep env d claims [] s failed_endpoints = (s, failed_endpoints)"
| "sweep env d claims ((endpoint, sd) # items) s failed_endpoints =
     (case get_vapid_private_key env s of
        (Inl e, s1) \<Rightarrow> sweep env d claims items s1 failed_endpoints
      | (Inr key, s1) \<Rightarrow>
          (let call = \<lparr>subscription_info = subscription sd, data = d,
                       vapid_private_key = key, vapid_claims = claims\<rparr>;
               s2 = s1\<lparr>webpush_calls := webpush_calls s1 @ [call]\<rparr>
           in (case webpush env call of
                 Delivered \<Rightarrow> sweep env d claims items s2 failed_endpoints
               | WebPushException r \<Rightarrow>
                   if expired r then sweep env d claims items s2 (failed_endpoints @ [endpoint])
                   else sweep env d claims items s2 failed_endpoints
               | OtherException \<Rightarrow> sweep env d claims items s2 failed_endpoints)))"

text \<open>The clean-up loop: an exception of \<^verbatim>\<open>unsubscribe\<close> is not caught and ends it.\<close>

fun cleanup :: "json list \<Rightarrow> push_state \<Rightarrow> exn option \<times> push_state" where
  "cleanup [] s = (None, s)"
| "cleanup (endpoint # rest) s =
     (case unsubscribe endpoint s of
        (Inl e, s1) \<Rightarrow> (Some e, s1)
      | (Inr _, s1) \<Rightarrow> cleanup rest s1)"

definition send_push_notification ::
  "push_env \<Rightarrow> string \<Rightarrow> string \<Rightarrow> string \<Rightarrow> string \<Rightarrow> int option \<Rightarrow> push_state \<Rightarrow>
   exn option \<times> push_state" where
  "send_push_notification env ttl bdy u tg event_id s =
     (if push_subscriptions s = [] then (None, s)
      else
        let d = Json_dumps \<lparr>title = ttl, body = bdy, url = u, tag = tg, eventId = event_id\<rparr>;
            claims = [(''sub'', ''mailto:admin@'' @ host env)];
            (s1, failed_endpoints) = sweep env d claims (push_subscriptions s) s []
        in cleanup failed_endpoints s1)"

definition alert_types :: "(string \<times> string \<times> string) list" where
  "alert_types =
     [(''UNKNOWN_FACE_DETECTED'', ''Unknown Person Detected'', ''An unrecognized face was detected''),
      (''LOITERING_DETECTED'', ''Loitering Alert'', ''Unusual activity detected''),
      (''VEHICLE_ENTERED'', ''Vehicle Entered'', ''A vehicle has entered the premises'')]"

text \<open>
  \<^verbatim>\<open>details or default_body\<close> takes the default for the empty string; \<^verbatim>\<open>if event_id\<close> is false
  for \<^verbatim>\<open>None\<close> and for 0.
\<close>

definition alert_url :: "int option \<Rightarrow> string" where
  "alert_url event_id =
     (case event_id of
        None \<Rightarrow> ''/events''
      | Some i \<Rightarrow> if i \<noteq> 0 then ''/events?highlight='' @ str_int i else ''/events'')"

definition send_alert_notification ::
  "push_env \<Rightarrow> string \<Rightarrow> string \<Rightarrow> int option \<Rightarrow> push_state \<Rightarrow> exn option \<times> push_state" where
  "send_alert_notification env event_type details event_id s =
     (case map_of alert_types event_type of
        None \<Rightarrow> (None, s)
      | Some (ttl, default_body) \<Rightarrow>
          send_push_notification env ttl (if details \<noteq> [] then details else default_body)
            (alert_url event_id) (''alert-'' @ lower event_type) event_id s)"

section \<open>websocket.py: the connection manager\<close>

text \<open>
  \<^verbatim>\<open>active_connections\<close> is a Python set, kept as the list of its members in the order the set
  iterates in, without repetition. Besides the set, the state records what the sockets were
  handed: \<open>delivered s c\<close> lists the texts for which \<^verbatim>\<open>c.send_text\<close> has returned.
\<close>

record ('c, 'm) ws_state =
  active_connections :: "'c list"
  delivered :: "'c \<Rightarrow> 'm json_text list"

definition ws_init :: "('c, 'm) ws_state" where
  "ws_init = \<lparr>active_connections = [], delivered = (\<lambda>_. [])\<rparr>"

text \<open>\<^verbatim>\<open>connect\<close>: the socket joins the set only when \<^verbatim>\<open>websocket.accept()\<close> has returned.\<close>

definition connect :: "bool \<Rightarrow> 'c \<Rightarrow> ('c, 'm) ws_state \<Rightarrow> ('c, 'm) ws_state" where
  "connect accepted websocket s =
     (if \<not> accepted then s
      else if websocket \<in> set (active_connections s) then s
      else s\<lparr>active_connections := active_connections s @ [websocket]\<rparr>)"

definition disconnect :: "'c \<Rightarrow> ('c, 'm) ws_state \<Rightarrow> ('c, 'm) ws_state" where
  "disconnect websocket s = s\<lparr>active_connections := removeAll websocket (active_connections s)\<rparr>"

text \<open>
  The loop of \<^verbatim>\<open>broadcast\<close>, run under the lock: \<open>raises c\<close> says whether \<^verbatim>\<open>c.send_text\<close>
  raises in this sweep. The handler adds the socket to \<^verbatim>\<open>disconnected\<close> and the loop goes on.
\<close>

fun send_all ::
  "('c \<Rightarrow> bool) \<Rightarrow> 'm json_text \<Rightarrow> 'c list \<Rightarrow> ('c \<Rightarrow> 'm json_text list) \<Rightarrow> 'c set \<Rightarrow>
   ('c \<Rightarrow> 'm json_text list) \<times> 'c set" where
  "send_all raises message_json [] inbox disconnected = (inbox, disconnected)"
| "send_all raises message_json (connection # rest) inbox disconnected =
     (if raises connection
      then send_all raises message_json rest inbox (insert connection disconnected)
      else send_all raises message_json rest
             (inbox(connection := inbox connection @ [message_json])) disconnected)"

definition broadcast :: "('c \<Rightarrow> bool) \<Rightarrow> 'm \<Rightarrow> ('c, 'm) ws_state \<Rightarrow> ('c, 'm) ws_state" where
  "broadcast raises message s =
     (if active_connections s = [] then s
      else
        let message_json = Json_dumps message;
            (inbox, disconnected) =
              send_all raises message_json (active_connections s) (delivered s) {}
        in s\<lparr>delivered := inbox,
             active_connections := filter (\<lambda>c. c \<notin> disconnected) (active_connections s)\<rparr>)"

text \<open>A history of the registry: the calls made on the manager, one after the other.\<close>

datatype ('c, 'm) ws_call =
    Connect bool 'c
  | Disconnect 'c
  | Broadcast "'c \<Rightarrow> bool" 'm

fun ws_apply :: "('c, 'm) ws_call \<Rightarrow> ('c, 'm) ws_state \<Rightarrow> ('c, 'm) ws_state" where
  "ws_apply (Connect accepted c) s = connect accepted c s"
| "ws_apply (Disconnect c) s = disconnect c s"
| "ws_apply (Broadcast raises m) s = broadcast raises m s"

definition ws_run :: "('c, 'm) ws_call list \<Rightarrow> ('c, 'm) ws_state \<Rightarrow> ('c, 'm) ws_state" where
  "ws_run calls s = fold ws_apply calls s"

section \<open>models.py, schemas.py and the session\<close>

text \<open>
  The columns the functions below read or write. Nullable columns are options. A session holds
  the rows it has flushed but not committed in \<open>pending\<close>; the tables hold what is committed,
  which is what any other session sees.
\<close>

record device =
  device_id :: string
  device_name :: "string option"
  api_key :: "string option"
  is_active :: "bool option"
  last_seen :: "int option"

record employee =
  employee_id :: string
  name :: string

record event =
  id' :: nat
  event_type :: string
  timestamp :: int
  track_id :: "int option"
  ev_device_id :: "string option"
  ev_employee_id :: "string option"
  license_plate :: "string option"
  duration :: int

record event_create =
  req_type :: string
  req_timestamp :: int
  req_track_id :: int
  req_employee_id :: "string option"
  req_license_plate :: "string option"
  req_duration :: int
  req_device_id :: string

record batch_event_request =
  events :: "event_create list"
  batch_device_id :: string

record batch_event_response =
  success :: bool
  processed :: int
  message :: "string option"

record db =
  devices_table :: "device list"
  employees_table :: "employee list"
  events_table :: "event list"
  pending :: "event list"

datatype http_exception = HTTPException nat string

definition db_commit :: "db \<Rightarrow> db" where
  "db_commit d = d\<lparr>events_table := events_table d @ pending d, pending := []\<rparr>"

definition db_rollback :: "db \<Rightarrow> db" where
  "db_rollback d = d\<lparr>pending := []\<rparr>"

text \<open>
  The identifier the store gives a row at \<^verbatim>\<open>flush\<close>: an integer primary key, one more than the
  largest in use in the table as the session sees it, 1 in an empty table.
\<close>

definition next_id :: "db \<Rightarrow> nat" where
  "next_id d = Suc (Max (insert 0 (id' ` set (events_table d @ pending d))))"

text \<open>
  The unique constraints of the \<^verbatim>\<open>devices\<close> table: \<^verbatim>\<open>device_id\<close>, and \<^verbatim>\<open>api_key\<close> where it is
  not null.
\<close>

definition unique_constraints :: "db \<Rightarrow> bool" where
  "unique_constraints d =
     (distinct (map device_id (devices_table d)) \<and>
      (\<forall>x \<in> set (devices_table d). \<forall>y \<in> set (devices_table d).
         api_key x \<noteq> None \<and> api_key x = api_key y \<longrightarrow> x = y))"

text \<open>Assigning to an attribute of the first row a query matched, as the session writes it back.\<close>

fun update_first :: "('a \<Rightarrow> bool) \<Rightarrow> ('a \<Rightarrow> 'a) \<Rightarrow> 'a list \<Rightarrow> 'a list" where
  "update_first P f [] = []"
| "update_first P f (x # xs) = (if P x then f x # xs else x # update_first P f xs)"

section \<open>routers/devices.py and routers/events.py\<close>

definition deactivate_device :: "string \<Rightarrow> db \<Rightarrow> (http_exception + bool) \<times> db" where
  "deactivate_device did d =
     (case find (\<lambda>r. device_id r = did) (devices_table d) of
        None \<Rightarrow> (Inl (HTTPException 404 ''Device not found''), d)
      | Some dev \<Rightarrow>
          (Inr True,
           db_commit (d\<lparr>devices_table :=
             update_first (\<lambda>r. device_id r = did) (\<lambda>r. r\<lparr>is_active := Some False\<rparr>) (devices_table d)\<rparr>)))"

definition verify_api_key :: "int \<Rightarrow> string \<Rightarrow> db \<Rightarrow> (http_exception + device) \<times> db" where
  "verify_api_key now x_api_key d =
     (let matches = (\<lambda>r. api_key r = Some x_api_key \<and> is_active r = Some True)
      in case find matches (devices_table d) of
           None \<Rightarrow> (Inl (HTTPException 401 ''Invalid or inactive API key''), d)
         | Some dev \<Rightarrow>
             (let dev1 = dev\<lparr>last_seen := Some now\<rparr>
              in (Inr dev1,
                  db_commit (d\<lparr>devices_table := update_first matches (\<lambda>_. dev1) (devices_table d)\<rparr>))))"

text \<open>
  What the storage layer raises inside the \<^verbatim>\<open>try\<close> block of \<^verbatim>\<open>create_events\<close>: \<open>flush_error\<close> for
  the row being flushed and \<open>commit_error\<close> for the commit, each the text of the exception or
  \<open>None\<close>. Reads are taken to succeed.
\<close>

record faults =
  flush_error :: "event \<Rightarrow> string option"
  commit_error :: "string option"

definition build_event :: "device \<Rightarrow> nat \<Rightarrow> event_create \<Rightarrow> event" where
  "build_event dev i event_data =
     \<lparr>id' = i,
      event_type = req_type event_data,
      timestamp = req_timestamp event_data,
      track_id = Some (req_track_id event_data),
      ev_device_id = Some (device_id dev),
      ev_employee_id = req_employee_id event_data,
      license_plate = req_license_plate event_data,
      duration = req_duration event_data\<rparr>"

text \<open>
  The first loop: \<^verbatim>\<open>db.add\<close>, \<^verbatim>\<open>db.flush\<close>, append, count. It stops at the first exception, with
  the session as it is then.
\<close>

fun add_events ::
  "faults \<Rightarrow> device \<Rightarrow> event_create list \<Rightarrow> db \<Rightarrow> nat \<Rightarrow> event list \<Rightarrow>
   (string + nat \<times> event list) \<times> db" where
  "add_events f dev [] d events_created created_events = (Inr (events_created, created_events), d)"
| "add_events f dev (event_data # rest) d events_created created_events =
     (let ev = build_event dev (next_id d) event_data
      in case flush_error f ev of
           Some msg \<Rightarrow> (Inl msg, d)
         | None \<Rightarrow>
             add_events f dev rest (d\<lparr>pending := pending d @ [ev]\<rparr>)
               (events_created + 1) (created_events @ [ev]))"

text \<open>
  The rows a batch asks the store for, with identifiers counted up from \<open>i\<close>. The loop above is
  shown below to build exactly these, from the first free identifier, as long as no flush fails.
\<close>

fun batch_rows :: "device \<Rightarrow> nat \<Rightarrow> event_create list \<Rightarrow> event list" where
  "batch_rows dev i [] = []"
| "batch_rows dev i (event_data # rest) = build_event dev i event_data # batch_rows dev (Suc i) rest"

text \<open>The truth value of an optional string: \<^verbatim>\<open>None\<close> and \<^verbatim>\<open>""\<close> are false.\<close>

definition truthy :: "string option \<Rightarrow> bool" where
  "truthy x = (case x of None \<Rightarrow> False | Some t \<Rightarrow> t \<noteq> [])"

definition employee_name_of :: "db \<Rightarrow> event \<Rightarrow> string option" where
  "employee_name_of d ev =
     (if truthy (ev_employee_id ev)
      then (case find (\<lambda>emp. Some (employee_id emp) = ev_employee_id ev) (employees_table d) of
              None \<Rightarrow> None
            | Some emp \<Rightarrow> Some (name emp))
      else None)"

definition json_opt :: "string option \<Rightarrow> json" where
  "json_opt x = (case x of None \<Rightarrow> JNull | Some t \<Rightarrow> JStr t)"

definition event_dict :: "event \<Rightarrow> string option \<Rightarrow> (string \<times> json) list" where
  "event_dict ev employee_name =
     [(''id'', JNum (int (id' ev))),
      (''event_type'', JStr (event_type ev)),
      (''timestamp'', JNum (timestamp ev)),
      (''employee_name'', json_opt employee_name),
      (''license_plate'', json_opt (license_plate ev)),
      (''duration'', JNum (duration ev))]"

text \<open>The tasks handed to \<^verbatim>\<open>background_tasks.add_task\<close>, with their arguments.\<close>

datatype task =
    Broadcast_event "(string \<times> json) list"
  | Send_alert_notification string string int

definition alert_types_events :: "string list" where
  "alert_types_events = [''UNKNOWN_FACE_DETECTED'', ''LOITERING_DETECTED'']"

text \<open>\<^verbatim>\<open>employee_name or event.license_plate or ""\<close>\<close>

definition details_of :: "string option \<Rightarrow> string option \<Rightarrow> string" where
  "details_of employee_name plate =
     (case employee_name of
        Some n \<Rightarrow> if n \<noteq> [] then n else (case plate of Some p \<Rightarrow> p | None \<Rightarrow> [])
      | None \<Rightarrow> (case plate of Some p \<Rightarrow> p | None \<Rightarrow> []))"

text \<open>The second loop, over \<^verbatim>\<open>created_events\<close>.\<close>

fun fan_out :: "db \<Rightarrow> event list \<Rightarrow> task list \<Rightarrow> task list" where
  "fan_out d [] background_tasks = background_tasks"
| "fan_out d (ev # rest) background_tasks =
     (let employee_name = employee_name_of d ev;
          tasks1 = background_tasks @ [Broadcast_event (event_dict ev employee_name)];
          tasks2 = (if event_type ev \<in> set alert_types_events
                    then tasks1 @ [Send_alert_notification (event_type ev)
                                     (details_of employee_name (license_plate ev)) (int (id' ev))]
                    else tasks1)
      in fan_out d rest tasks2)"

definition create_events ::
  "faults \<Rightarrow> batch_event_request \<Rightarrow> device \<Rightarrow> db \<Rightarrow>
   (http_exception + batch_event_response) \<times> db \<times> task list" where
  "create_events f request dev d =
     (case add_events f dev (events request) d 0 [] of
        (Inl msg, d1) \<Rightarrow> (Inl (HTTPException 500 msg), db_rollback d1, [])
      | (Inr (events_created, created_events), d1) \<Rightarrow>
          (case commit_error f of
             Some msg \<Rightarrow> (Inl (HTTPException 500 msg), db_rollback d1, [])
           | None \<Rightarrow>
               (let d2 = db_commit d1
                in (Inr \<lparr>success = True, processed = int events_created,
                         message = Some (''Successfully processed '' @ str_nat events_created @ '' events'')\<rparr>,
                    d2, fan_out d2 created_events []))))"

text \<open>
  The route: \<^verbatim>\<open>get_db\<close> opens a session, which has flushed nothing yet, and closes it in the
  end, which drops what was not committed. \<^verbatim>\<open>Depends(verify_api_key)\<close> runs first, on the
  same session; when it raises, \<^verbatim>\<open>create_events\<close> is not called.
\<close>

definition get_db :: "db \<Rightarrow> db" where
  "get_db d = d\<lparr>pending := []\<rparr>"

definition db_close :: "db \<Rightarrow> db" where
  "db_close d = d\<lparr>pending := []\<rparr>"

definition post_events ::
  "int \<Rightarrow> faults \<Rightarrow> string \<Rightarrow> batch_event_request \<Rightarrow> db \<Rightarrow>
   (http_exception + batch_event_response) \<times> db \<times> task list" where
  "post_events now f x_api_key request d =
     (case verify_api_key now x_api_key (get_db d) of
        (Inl e, d1) \<Rightarrow> (Inl e, db_close d1, [])
      | (Inr dev, d1) \<Rightarrow>
          (case create_events f request dev d1 of
             (r, d2, background_tasks) \<Rightarrow> (r, db_close d2, background_tasks)))"

section \<open>Concrete inputs\<close>

text \<open>
  A key provider that numbers its key pairs, a transport that delivers, and one that answers
  410 Gone to every request.
\<close>

definition example_env :: push_env where
  "example_env =
     \<lparr>ec_generate = (\<lambda>n. \<lparr>private_pem = ''PEM'' @ str_nat n, public_key_b64 = ''PUB'' @ str_nat n\<rparr>),
      webpush = (\<lambda>c. Delivered),
      host = ''0.0.0.0''\<rparr>"

definition gone_env :: push_env where
  "gone_env = example_env\<lparr>webpush := (\<lambda>c. WebPushException (Some \<lparr>status_code = 410\<rparr>))\<rparr>"

definition empty_push_state :: push_state where
  "empty_push_state =
     \<lparr>push_subscriptions = [], vapid_private_file = None, vapid_public_file = None,
      keys_generated = 0, key_file_reads = 0, webpush_calls = []\<rparr>"

definition keys_on_disk :: push_state where
  "keys_on_disk =
     empty_push_state\<lparr>vapid_private_file := Some ''PEM0'', vapid_public_file := Some ''PUB0''\<rparr>"

definition browser_payload :: "(string \<times> json) list" where
  "browser_payload =
     [(''endpoint'', JStr ''https://push.example/abc''),
      (''keys'', JObj [(''p256dh'', JStr ''BPk''), (''auth'', JStr ''s3c'')])]"

definition one_subscriber :: push_state where
  "one_subscriber = snd (subscribe browser_payload ''anonymous'' empty_push_state)"

text \<open>
  A store with one active device, one employee and one earlier event; a batch of two events
  that names another device; a batch of one vehicle event; a storage layer that accepts
  everything, and one that rejects the row with identifier 6.
\<close>

definition example_device :: device where
  "example_device =
     \<lparr>device_id = ''D'', device_name = Some ''Gate camera'', api_key = Some ''K1'',
      is_active = Some True, last_seen = None\<rparr>"

definition example_db :: db where
  "example_db =
     \<lparr>devices_table = [example_device],
      employees_table = [\<lparr>employee_id = ''E7'', name = ''Asha''\<rparr>],
      events_table =
        [\<lparr>id' = 4, event_type = ''PERSON_ENTERED'', timestamp = 900, track_id = Some 1,
          ev_device_id = Some ''D'', ev_employee_id = None, license_plate = None, duration = 0\<rparr>],
      pending = []\<rparr>"

definition inactive_db :: db where
  "inactive_db = example_db\<lparr>devices_table := [example_device\<lparr>is_active := Some False\<rparr>]\<rparr>"

definition face_event :: event_create where
  "face_event =
     \<lparr>req_type = ''UNKNOWN_FACE_DETECTED'', req_timestamp = 1000, req_track_id = 1,
      req_employee_id = None, req_license_plate = None, req_duration = 500,
      req_device_id = ''OTHER''\<rparr>"

definition vehicle_event :: event_create where
  "vehicle_event =
     \<lparr>req_type = ''VEHICLE_ENTERED'', req_timestamp = 1001, req_track_id = 2,
      req_employee_id = None, req_license_plate = Some ''KA-01'', req_duration = 0,
      req_device_id = ''OTHER''\<rparr>"

definition example_request :: batch_event_request where
  "example_request = \<lparr>events = [face_event, vehicle_event], batch_device_id = ''OTHER''\<rparr>"

definition vehicle_request :: batch_event_request where
  "vehicle_request = \<lparr>events = [vehicle_event], batch_device_id = ''D''\<rparr>"

definition no_faults :: faults where
  "no_faults = \<lparr>flush_error = (\<lambda>_. None), commit_error = None\<rparr>"

definition second_row_fails :: faults where
  "second_row_fails =
     \<lparr>flush_error = (\<lambda>e. if id' e = 6 then Some ''database is locked'' else None),
      commit_error = None\<rparr>"

text \<open>A history of the registry: three sockets join, one is refused, one leaves.\<close>

definition example_calls :: "(nat, string) ws_call list" where
  "example_calls = [Connect True 1, Connect True 2, Connect False 4, Connect True 3, Disconnect 3]"

section \<open>The key files\<close>

lemma generate_vapid_keys_files:
  "vapid_private_file (generate_vapid_keys env s) \<noteq> None \<and>
   vapid_public_file (generate_vapid_keys env s) \<noteq> None"
  by (simp add: generate_vapid_keys_def Let_def)

lemma generate_vapid_keys_present:
  "vapid_private_file s \<noteq> None \<Longrightarrow> vapid_public_file s \<noteq> None \<Longrightarrow> generate_vapid_keys env s = s"
  by (simp add: generate_vapid_keys_def)

lemma generate_vapid_keys_idem:
  "generate_vapid_keys env' (generate_vapid_keys env s) = generate_vapid_keys env s"
  using generate_vapid_keys_files [of env s] by (auto intro: generate_vapid_keys_present)

lemma generate_count_read:
  "generate_vapid_keys env (count_read s) = count_read (generate_vapid_keys env s)"
  by (simp add: generate_vapid_keys_def count_read_def Let_def)

lemma count_read_sel [simp]:
  "vapid_public_file (count_read s) = vapid_public_file s"
  "vapid_private_file (count_read s) = vapid_private_file s"
  "keys_generated (count_read s) = keys_generated s"
  "push_subscriptions (count_read s) = push_subscriptions s"
  "webpush_calls (count_read s) = webpush_calls s"
  by (simp_all add: count_read_def)

lemma get_public_Inr:
  "\<exists>t. vapid_public_file (generate_vapid_keys env s) = Some t \<and>
       get_vapid_public_key env s = (Inr (strip t), count_read (generate_vapid_keys env s))"
  using generate_vapid_keys_files [of env s]
  by (auto simp: get_vapid_public_key_def read_text_def count_read_def Let_def)

lemma get_private_Inr:
  "\<exists>t. vapid_private_file (generate_vapid_keys env s) = Some t \<and>
       get_vapid_private_key env s = (Inr (strip t), count_read (generate_vapid_keys env s))"
  using generate_vapid_keys_files [of env s]
  by (auto simp: get_vapid_private_key_def read_text_def count_read_def Let_def)

text \<open>
  C10. Two calls of the public-key operation in succession return the same key, whatever the
  key provider would hand out at the second call, and the second call generates nothing and
  leaves both files as they are. Once both files exist, \<open>generate_vapid_keys\<close> changes nothing,
  and neither getter has a key generated.
\<close>

theorem public_key_idempotent:
  "(\<exists>k s1 s2.
      get_vapid_public_key env s = (Inr k, s1) \<and>
      get_vapid_public_key env' s1 = (Inr k, s2) \<and>
      keys_generated s2 = keys_generated s1 \<and>
      vapid_public_file s2 = vapid_public_file s1 \<and>
      vapid_private_file s2 = vapid_private_file s1) \<and>
   (vapid_private_file s \<noteq> None \<and> vapid_public_file s \<noteq> None \<longrightarrow>
      generate_vapid_keys env s = s \<and>
      keys_generated (snd (get_vapid_public_key env s)) = keys_generated s \<and>
      keys_generated (snd (get_vapid_private_key env s)) = keys_generated s)"
proof (intro conjI impI)
  obtain t where t: "vapid_public_file (generate_vapid_keys env s) = Some t"
    and g1: "get_vapid_public_key env s = (Inr (strip t), count_read (generate_vapid_keys env s))"
    using get_public_Inr by blast
  let ?s1 = "count_read (generate_vapid_keys env s)"
  have same: "generate_vapid_keys env' ?s1 = ?s1"
    by (simp add: generate_count_read generate_vapid_keys_idem)
  have "vapid_public_file ?s1 = Some t"
    using t by simp
  then have g2: "get_vapid_public_key env' ?s1 = (Inr (strip t), count_read ?s1)"
    by (simp add: get_vapid_public_key_def same read_text_def)
  show "\<exists>k s1 s2.
      get_vapid_public_key env s = (Inr k, s1) \<and>
      get_vapid_public_key env' s1 = (Inr k, s2) \<and>
      keys_generated s2 = keys_generated s1 \<and>
      vapid_public_file s2 = vapid_public_file s1 \<and>
      vapid_private_file s2 = vapid_private_file s1"
    using g1 g2 by simp
next
  assume "vapid_private_file s \<noteq> None \<and> vapid_public_file s \<noteq> None"
  then show "generate_vapid_keys env s = s"
    by (simp add: generate_vapid_keys_present)
next
  assume "vapid_private_file s \<noteq> None \<and> vapid_public_file s \<noteq> None"
  then have "generate_vapid_keys env s = s"
    by (simp add: generate_vapid_keys_present)
  then show "keys_generated (snd (get_vapid_public_key env s)) = keys_generated s"
    using get_public_Inr [of env s] by auto
next
  assume "vapid_private_file s \<noteq> None \<and> vapid_public_file s \<noteq> None"
  then have "generate_vapid_keys env s = s"
    by (simp add: generate_vapid_keys_present)
  then show "keys_generated (snd (get_vapid_private_key env s)) = keys_generated s"
    using get_private_Inr [of env s] by auto
qed

theorem public_key_idempotent_witness:
  "vapid_private_file keys_on_disk \<noteq> None \<and> vapid_public_file keys_on_disk \<noteq> None \<and>
   generate_vapid_keys example_env keys_on_disk = keys_on_disk \<and>
   keys_generated (snd (get_vapid_public_key example_env keys_on_disk)) = 0 \<and>
   keys_generated (snd (get_vapid_private_key example_env keys_on_disk)) = 0"
  using public_key_idempotent [of example_env keys_on_disk example_env]
  by (simp add: keys_on_disk_def empty_push_state_def)

section \<open>Dispatch with no subscriber\<close>

text \<open>
  C9. With an empty subscriber dict, \<open>send_push_notification\<close> (and so \<open>send_alert_notification\<close>)
  returns at once and the state is the one it started from: no key pair generated, no key file
  read or written, no call of the transport.
\<close>

theorem no_subscribers_noop:
  assumes "push_subscriptions s = []"
  shows "send_push_notification env ttl bdy u tg eid s = (None, s) \<and>
         send_alert_notification env et details eid s = (None, s)"
  using assms
  by (simp add: send_push_notification_def send_alert_notification_def
      split: option.splits prod.splits)

theorem no_subscribers_noop_witness:
  "push_subscriptions empty_push_state = [] \<and>
   send_push_notification example_env ''t'' ''b'' ''/'' ''sentinel-alert'' (Some 3) empty_push_state
     = (None, empty_push_state) \<and>
   send_alert_notification example_env ''LOITERING_DETECTED'' '''' (Some 3) empty_push_state
     = (None, empty_push_state) \<and>
   keys_generated empty_push_state = 0 \<and> key_file_reads empty_push_state = 0 \<and>
   vapid_private_file empty_push_state = None \<and> webpush_calls empty_push_state = []"
proof -
  have h: "push_subscriptions empty_push_state = []"
    by (simp add: empty_push_state_def)
  show ?thesis
    using h no_subscribers_noop [OF h, where env = example_env and ttl = "''t''" and bdy = "''b''"
        and u = "''/''" and tg = "''sentinel-alert''" and eid = "Some 3"
        and et = "''LOITERING_DETECTED''" and details = "''''"]
    by (simp add: empty_push_state_def)
qed

section \<open>The subscription store\<close>




section \<open>The dispatch sweep\<close>

lemma generate_keeps [simp]:
  "push_subscriptions (generate_vapid_keys env s) = push_subscriptions s"
  "webpush_calls (generate_vapid_keys env s) = webpush_calls s"
  by (simp_all add: generate_vapid_keys_def Let_def)

lemma sweep_subscriptions:
  "push_subscriptions (fst (sweep env d claims items s failed)) = push_subscriptions s"
proof (induction items arbitrary: s failed)
  case Nil
  show ?case by simp
next
  case (Cons item items)
  obtain endpoint sd where item: "item = (endpoint, sd)" by (cases item)
  obtain t where g: "get_vapid_private_key env s = (Inr (strip t), count_read (generate_vapid_keys env s))"
    using get_private_Inr by blast
  show ?case
    by (simp add: item g Cons.IH Let_def split: push_outcome.split)
qed







lemma one_subscriber_eq:
  "one_subscriber =
     empty_push_state\<lparr>push_subscriptions :=
       [(JStr ''https://push.example/abc'', \<lparr>subscription = browser_payload, user_id = ''anonymous''\<rparr>)]\<rparr>"
  by (simp add: one_subscriber_def subscribe_def dict_get_def browser_payload_def Let_def
      empty_push_state_def)




section \<open>Endpoints that are gone\<close>

text \<open>
  The test that marks an endpoint for removal never holds: a response with status 404 or 410 is
  false as a truth value. So the sweep marks nothing, and a dispatch leaves the subscriber dict
  as it was.
\<close>

lemma never_expired: "\<not> expired r"
  by (cases r) (auto simp: expired_def truthy_response_def response_ok_def)

lemma sweep_failed:
  "snd (sweep env d claims items s failed) = failed"
proof (induction items arbitrary: s failed)
  case Nil
  show ?case by simp
next
  case (Cons item items)
  obtain endpoint sd where item: "item = (endpoint, sd)" by (cases item)
  obtain t where g: "get_vapid_private_key env s = (Inr (strip t), count_read (generate_vapid_keys env s))"
    using get_private_Inr by blast
  show ?case
    by (simp add: item g Cons.IH Let_def never_expired split: push_outcome.split)
qed

lemma send_push_keeps_subscriptions:
  "push_subscriptions (snd (send_push_notification env ttl bdy u tg eid s)) = push_subscriptions s"
proof (cases "push_subscriptions s = []")
  case True
  then show ?thesis by (simp add: send_push_notification_def)
next
  case False
  let ?d = "Json_dumps \<lparr>title = ttl, body = bdy, url = u, tag = tg, eventId = eid\<rparr>"
  let ?claims = "[(''sub'', ''mailto:admin@'' @ host env)]"
  obtain s1 failed where sw: "sweep env ?d ?claims (push_subscriptions s) s [] = (s1, failed)"
    by (cases "sweep env ?d ?claims (push_subscriptions s) s []")
  have "failed = []"
    using sweep_failed [of env ?d ?claims "push_subscriptions s" s "[]"] sw by simp
  moreover have "push_subscriptions s1 = push_subscriptions s"
    using sweep_subscriptions [of env ?d ?claims "push_subscriptions s" s "[]"] sw by simp
  ultimately show ?thesis
    using False sw by (simp add: send_push_notification_def)
qed

text \<open>
  C4, at a subscriber whose push service answers 410 Gone: the delivery is attempted, the
  answer is 410, and the endpoint is still in the dict when the dispatch has returned.
\<close>

theorem gone_endpoint_is_kept:
  "map fst (push_subscriptions one_subscriber) = [JStr ''https://push.example/abc''] \<and>
   map (webpush gone_env)
     (webpush_calls (snd (send_push_notification gone_env ''Loitering Alert'' ''Unusual activity detected''
        ''/events'' ''alert-loitering_detected'' None one_subscriber)))
     = [WebPushException (Some \<lparr>status_code = 410\<rparr>)] \<and>
   map fst (push_subscriptions (snd (send_push_notification gone_env ''Loitering Alert''
        ''Unusual activity detected'' ''/events'' ''alert-loitering_detected'' None one_subscriber)))
     = [JStr ''https://push.example/abc'']"
  by (simp add: one_subscriber_eq send_push_notification_def empty_push_state_def gone_env_def
      example_env_def get_vapid_private_key_def generate_vapid_keys_def read_text_def count_read_def
      Let_def never_expired)

section \<open>The broadcast sweep\<close>

lemma send_all_disconnected:
  "snd (send_all raises m cs inbox disc) = disc \<union> {c \<in> set cs. raises c}"
  by (induction cs arbitrary: inbox disc) auto

lemma send_all_inbox:
  "distinct cs \<Longrightarrow>
   fst (send_all raises m cs inbox disc) c =
     (if c \<in> set cs \<and> \<not> raises c then inbox c @ [m] else inbox c)"
  by (induction cs arbitrary: inbox disc) auto

lemma distinct_ws_apply:
  "distinct (active_connections s) \<Longrightarrow> distinct (active_connections (ws_apply call s))"
  by (cases call)
    (auto simp: connect_def disconnect_def broadcast_def Let_def distinct_removeAll split: prod.splits)

lemma distinct_ws_run:
  "distinct (active_connections s) \<Longrightarrow> distinct (active_connections (ws_run calls s))"
  unfolding ws_run_def
  by (induction calls arbitrary: s) (auto simp del: ws_apply.simps intro: distinct_ws_apply)

lemma broadcast_distinct:
  assumes "distinct (active_connections s)"
  shows "set (active_connections (broadcast raises m s)) = {c \<in> set (active_connections s). \<not> raises c}"
    and "delivered (broadcast raises m s) c =
           (if c \<in> set (active_connections s) \<and> \<not> raises c then delivered s c @ [Json_dumps m]
            else delivered s c)"
proof -
  obtain inbox disc where sa:
    "send_all raises (Json_dumps m) (active_connections s) (delivered s) {} = (inbox, disc)"
    by (cases "send_all raises (Json_dumps m) (active_connections s) (delivered s) {}")
  have disc: "disc = {c \<in> set (active_connections s). raises c}"
    using send_all_disconnected [of raises "Json_dumps m" "active_connections s" "delivered s" "{}"] sa
    by simp
  have inbox: "inbox c =
      (if c \<in> set (active_connections s) \<and> \<not> raises c then delivered s c @ [Json_dumps m]
       else delivered s c)"
    using send_all_inbox [OF assms, of raises "Json_dumps m" "delivered s" "{}" c] sa by simp
  show "set (active_connections (broadcast raises m s)) = {c \<in> set (active_connections s). \<not> raises c}"
    by (auto simp: broadcast_def sa disc)
  show "delivered (broadcast raises m s) c =
           (if c \<in> set (active_connections s) \<and> \<not> raises c then delivered s c @ [Json_dumps m]
            else delivered s c)"
    using inbox by (auto simp: broadcast_def sa)
qed

text \<open>
  C2. After any history of connects, disconnects and broadcasts, one more broadcast leaves
  the registry so: a member whose send raised is no longer a member and was handed nothing; a
  member whose send returned is still a member and was handed the serialised message exactly
  once more, whatever the other sends did; a socket that was not a member stays out and is
  handed nothing.
\<close>

theorem broadcast_prunes_and_delivers:
  "(let s = ws_run calls ws_init; s1 = broadcast raises msg s
    in (\<forall>c \<in> set (active_connections s).
          (raises c \<longrightarrow> c \<notin> set (active_connections s1) \<and> delivered s1 c = delivered s c) \<and>
          (\<not> raises c \<longrightarrow> c \<in> set (active_connections s1) \<and>
                           delivered s1 c = delivered s c @ [Json_dumps msg])) \<and>
       (\<forall>c. c \<notin> set (active_connections s) \<longrightarrow>
          c \<notin> set (active_connections s1) \<and> delivered s1 c = delivered s c) \<and>
       distinct (active_connections s1))"
proof -
  let ?s = "ws_run calls (ws_init :: ('a, 'b) ws_state)"
  have d: "distinct (active_connections ?s)"
    by (rule distinct_ws_run) (simp add: ws_init_def)
  have d1: "distinct (active_connections (broadcast raises msg ?s))"
    using distinct_ws_apply [OF d, of "Broadcast raises msg"] by simp
  show ?thesis
    using broadcast_distinct [OF d, of raises msg] d1
    by (auto simp: Let_def)
qed

theorem broadcast_prunes_and_delivers_witness:
  "active_connections (ws_run example_calls ws_init) = [1, 2] \<and>
   active_connections (broadcast (\<lambda>c. c = 2) ''new_event'' (ws_run example_calls ws_init)) = [1] \<and>
   delivered (broadcast (\<lambda>c. c = 2) ''new_event'' (ws_run example_calls ws_init)) 1
     = [Json_dumps ''new_event''] \<and>
   delivered (broadcast (\<lambda>c. c = 2) ''new_event'' (ws_run example_calls ws_init)) 2 = []"
  using broadcast_prunes_and_delivers [of example_calls "\<lambda>c. c = 2" "''new_event''"]
  by (simp add: example_calls_def ws_run_def ws_init_def connect_def disconnect_def broadcast_def
      Let_def)

section \<open>The store during a batch\<close>

lemma next_id_gt:
  "e \<in> set (events_table d) \<union> set (pending d) \<Longrightarrow> id' e < next_id d"
proof -
  assume "e \<in> set (events_table d) \<union> set (pending d)"
  then have "id' e \<in> insert 0 (id' ` set (events_table d @ pending d))" by auto
  then have "id' e \<le> Max (insert 0 (id' ` set (events_table d @ pending d)))"
    by (intro Max_ge) auto
  then show ?thesis by (simp add: next_id_def)
qed

lemma next_id_flush:
  "id' ev = next_id d \<Longrightarrow> next_id (d\<lparr>pending := pending d @ [ev]\<rparr>) = Suc (next_id d)"
proof -
  assume ev: "id' ev = next_id d"
  let ?S = "insert 0 (id' ` set (events_table d @ pending d))"
  have fin: "finite ?S" by simp
  have "insert 0 (id' ` set (events_table d @ pending d @ [ev])) = insert (id' ev) ?S" by auto
  moreover have "Max (insert (id' ev) ?S) = max (id' ev) (Max ?S)"
    by (rule Max_insert) (use fin in auto)
  moreover have "Max ?S < id' ev" by (simp add: ev next_id_def)
  ultimately show ?thesis
    by (simp add: next_id_def ev max_def)
qed

lemma build_event_id [simp]: "id' (build_event dev i r) = i"
  by (simp add: build_event_def)

lemma add_events_ok:
  "\<forall>e \<in> set (batch_rows dev (next_id d) reqs). flush_error f e = None \<Longrightarrow>
   add_events f dev reqs d n created =
     (Inr (n + length reqs, created @ batch_rows dev (next_id d) reqs),
      d\<lparr>pending := pending d @ batch_rows dev (next_id d) reqs\<rparr>)"
proof (induction reqs arbitrary: d n created)
  case Nil
  show ?case by simp
next
  case (Cons r reqs)
  let ?ev = "build_event dev (next_id d) r"
  let ?d1 = "d\<lparr>pending := pending d @ [?ev]\<rparr>"
  have nid: "next_id ?d1 = Suc (next_id d)"
    by (rule next_id_flush) simp
  have ok: "flush_error f ?ev = None"
    using Cons.prems by simp
  have rest: "\<forall>e \<in> set (batch_rows dev (next_id ?d1) reqs). flush_error f e = None"
    using Cons.prems by (simp add: nid)
  show ?case
    using Cons.IH [OF rest, of "n + 1" "created @ [?ev]"]
    by (simp add: ok nid Let_def)
qed

lemma add_events_table:
  "events_table (snd (add_events f dev reqs d n created)) = events_table d"
proof (induction reqs arbitrary: d n created)
  case Nil
  show ?case by simp
next
  case (Cons r reqs)
  show ?case
    by (cases "flush_error f (build_event dev (next_id d) r)") (simp_all add: Let_def Cons.IH)
qed

lemma add_events_fail:
  "\<exists>e \<in> set (batch_rows dev (next_id d) reqs). flush_error f e \<noteq> None \<Longrightarrow>
   \<exists>msg. fst (add_events f dev reqs d n created) = Inl msg"
proof (induction reqs arbitrary: d n created)
  case Nil
  then show ?case by simp
next
  case (Cons r reqs)
  let ?ev = "build_event dev (next_id d) r"
  let ?d1 = "d\<lparr>pending := pending d @ [?ev]\<rparr>"
  show ?case
  proof (cases "flush_error f ?ev")
    case (Some msg)
    then show ?thesis by (simp add: Let_def)
  next
    case None
    have nid: "next_id ?d1 = Suc (next_id d)"
      by (rule next_id_flush) simp
    have "\<exists>e \<in> set (batch_rows dev (next_id ?d1) reqs). flush_error f e \<noteq> None"
      using Cons.prems None by (auto simp: nid)
    then show ?thesis
      using Cons.IH [of ?d1 "n + 1" "created @ [?ev]"] None by (simp add: Let_def)
  qed
qed

text \<open>
  C3. When the storage layer rejects one of the batch's rows at flush, or rejects the commit,
  \<open>create_events\<close> raises the 500 error, schedules nothing, and the committed events table is
  the one it started with: the session is rolled back and holds no row of the batch.
\<close>

theorem batch_is_atomic:
  assumes "(\<exists>e \<in> set (batch_rows dev (next_id d) (events request)). flush_error f e \<noteq> None)
           \<or> commit_error f \<noteq> None"
  shows "\<exists>msg d1. create_events f request dev d = (Inl (HTTPException 500 msg), d1, []) \<and>
                  events_table d1 = events_table d \<and> pending d1 = []"
proof (cases "\<exists>e \<in> set (batch_rows dev (next_id d) (events request)). flush_error f e \<noteq> None")
  case True
  obtain r d1 where ae: "add_events f dev (events request) d 0 [] = (r, d1)"
    by (cases "add_events f dev (events request) d 0 []")
  obtain msg where "r = Inl msg"
    using add_events_fail [OF True, of 0 "[]"] ae by auto
  moreover have "events_table d1 = events_table d"
    using add_events_table [of f dev "events request" d 0 "[]"] ae by simp
  ultimately show ?thesis
    using ae by (simp add: create_events_def db_rollback_def)
next
  case False
  then have ok: "\<forall>e \<in> set (batch_rows dev (next_id d) (events request)). flush_error f e = None"
    by auto
  from False assms obtain msg where "commit_error f = Some msg" by auto
  then show ?thesis
    by (simp add: create_events_def add_events_ok [OF ok] db_rollback_def)
qed

lemma example_next_id: "next_id example_db = 5"
  by (simp add: next_id_def example_db_def)

theorem batch_is_atomic_witness:
  "(\<exists>e \<in> set (batch_rows example_device (next_id example_db) (events example_request)).
      flush_error second_row_fails e \<noteq> None) \<and>
   (\<exists>d1. create_events second_row_fails example_request example_device example_db
            = (Inl (HTTPException 500 ''database is locked''), d1, []) \<and>
          events_table d1 = events_table example_db \<and> pending d1 = [])"
proof -
  have h: "\<exists>e \<in> set (batch_rows example_device (next_id example_db) (events example_request)).
      flush_error second_row_fails e \<noteq> None"
    by (simp add: example_next_id example_request_def second_row_fails_def)
  have "fst (create_events second_row_fails example_request example_device example_db)
          = Inl (HTTPException 500 ''database is locked'')"
    by (simp add: create_events_def example_request_def second_row_fails_def example_next_id
        next_id_def example_db_def Let_def)
  then show ?thesis
    using h batch_is_atomic [of example_device example_db example_request second_row_fails, OF disjI1, OF h]
    by auto
qed

section \<open>A valid batch\<close>

lemma str_nat_2: "str_nat (Suc (Suc 0)) = ''2''" "str_nat (Suc 0) = ''1''"
  by code_simp+

lemma example_verify:
  "verify_api_key 1700000000 ''K1'' (get_db example_db) =
     (Inr (example_device\<lparr>last_seen := Some 1700000000\<rparr>),
      example_db\<lparr>devices_table := [example_device\<lparr>last_seen := Some 1700000000\<rparr>]\<rparr>)"
  by (simp add: verify_api_key_def get_db_def example_db_def example_device_def db_commit_def Let_def)

lemma example_post_events:
  "fst (post_events 1700000000 no_faults ''K1'' example_request example_db) =
     Inr \<lparr>success = True, processed = 2, message = Some ''Successfully processed 2 events''\<rparr>"
  "map id' (events_table (fst (snd (post_events 1700000000 no_faults ''K1'' example_request example_db))))
     = [4, 5, 6]"
  "map ev_device_id
     (events_table (fst (snd (post_events 1700000000 no_faults ''K1'' example_request example_db))))
     = [Some ''D'', Some ''D'', Some ''D'']"
  unfolding post_events_def example_verify
  by (simp_all add: create_events_def example_request_def
      no_faults_def next_id_def example_db_def example_device_def build_event_def face_event_def
      vehicle_event_def db_commit_def db_close_def Let_def str_nat_2)

lemma batch_rows_length [simp]: "length (batch_rows dev i reqs) = length reqs"
  by (induction reqs arbitrary: i) auto

lemma batch_rows_ids: "map id' (batch_rows dev i reqs) = [i ..< i + length reqs]"
  by (induction reqs arbitrary: i) (auto simp: upt_rec)

lemma batch_rows_device:
  "e \<in> set (batch_rows dev i reqs) \<Longrightarrow> ev_device_id e = Some (device_id dev)"
  by (induction reqs arbitrary: i) (auto simp: build_event_def)

lemma batch_rows_fields:
  "map event_type (batch_rows dev i reqs) = map req_type reqs \<and>
   map timestamp (batch_rows dev i reqs) = map req_timestamp reqs"
  by (induction reqs arbitrary: i) (auto simp: build_event_def)

lemma batch_rows_last_seen:
  "batch_rows (dev\<lparr>last_seen := x\<rparr>) i reqs = batch_rows dev i reqs"
  by (induction reqs arbitrary: i) (auto simp: build_event_def)

lemma verify_api_key_found:
  "find (\<lambda>r. api_key r = Some k \<and> is_active r = Some True) (devices_table d) = Some dev \<Longrightarrow>
   verify_api_key now k d =
     (Inr (dev\<lparr>last_seen := Some now\<rparr>),
      db_commit (d\<lparr>devices_table :=
        update_first (\<lambda>r. api_key r = Some k \<and> is_active r = Some True)
          (\<lambda>_. dev\<lparr>last_seen := Some now\<rparr>) (devices_table d)\<rparr>))"
  by (simp add: verify_api_key_def Let_def)

text \<open>
  C5. A batch of N events posted with the credential of an active device, on a storage layer
  that accepts every row and the commit, is answered with \<open>processed = N\<close>; the committed
  table grows by exactly N rows, in the batch's order, each carrying the authenticated device's
  identity whatever device the request names, and their identifiers are strictly increasing,
  hence distinct, and larger than every identifier the table held before.
\<close>

theorem ingest_valid_batch:
  assumes auth: "find (\<lambda>r. api_key r = Some k \<and> is_active r = Some True) (devices_table d) = Some dev"
    and flush: "\<forall>e. flush_error f e = None"
    and commit: "commit_error f = None"
  shows "\<exists>d1 tasks created.
           post_events now f k request d =
             (Inr \<lparr>success = True, processed = int (length (events request)),
                   message = Some (''Successfully processed '' @ str_nat (length (events request))
                                     @ '' events'')\<rparr>,
              d1, tasks) \<and>
           events_table d1 = events_table d @ created \<and>
           pending d1 = [] \<and>
           length created = length (events request) \<and>
           (\<forall>e \<in> set created. ev_device_id e = Some (device_id dev)) \<and>
           map event_type created = map req_type (events request) \<and>
           map timestamp created = map req_timestamp (events request) \<and>
           sorted_wrt (<) (map id' created) \<and>
           distinct (map id' created) \<and>
           (\<forall>e \<in> set (events_table d). \<forall>c \<in> set created. id' e < id' c)"
proof -
  let ?dev1 = "dev\<lparr>last_seen := Some now\<rparr>"
  let ?d0 = "db_commit ((get_db d)\<lparr>devices_table :=
        update_first (\<lambda>r. api_key r = Some k \<and> is_active r = Some True)
          (\<lambda>_. ?dev1) (devices_table (get_db d))\<rparr>)"
  let ?created = "batch_rows dev (next_id ?d0) (events request)"
  let ?d2 = "db_commit (?d0\<lparr>pending := pending ?d0 @ ?created\<rparr>)"
  let ?resp = "\<lparr>success = True, processed = int (length (events request)),
            message = Some (''Successfully processed '' @ str_nat (length (events request))
                              @ '' events'')\<rparr>"
  have v: "verify_api_key now k (get_db d) = (Inr ?dev1, ?d0)"
    using auth by (intro verify_api_key_found) (simp add: get_db_def)
  have tbl0: "events_table ?d0 = events_table d" "pending ?d0 = []"
    by (simp_all add: db_commit_def get_db_def)
  have ok: "\<forall>e \<in> set (batch_rows ?dev1 (next_id ?d0) (events request)). flush_error f e = None"
    using flush by simp
  have ce: "create_events f request ?dev1 ?d0 = (Inr ?resp, ?d2, fan_out ?d2 ?created [])"
    unfolding create_events_def add_events_ok [OF ok]
    by (simp add: commit batch_rows_last_seen Let_def)
  have res: "post_events now f k request d = (Inr ?resp, db_close ?d2, fan_out ?d2 ?created [])"
    by (simp add: post_events_def v ce)
  have t1: "events_table (db_close ?d2) = events_table d @ ?created"
    using tbl0 by (simp add: db_close_def db_commit_def)
  have p1: "pending (db_close ?d2) = []"
    by (simp add: db_close_def)
  have ids: "map id' ?created = [next_id ?d0 ..< next_id ?d0 + length (events request)]"
    by (rule batch_rows_ids)
  have sorted: "sorted_wrt (<) (map id' ?created)"
    unfolding ids by (rule sorted_wrt_upt)
  have dist: "distinct (map id' ?created)"
    unfolding ids by simp
  have above: "\<forall>e \<in> set (events_table d). \<forall>c \<in> set ?created. id' e < id' c"
  proof (intro ballI)
    fix e c
    assume e: "e \<in> set (events_table d)" and c: "c \<in> set ?created"
    have "id' e < next_id ?d0"
      using e tbl0 by (intro next_id_gt) simp
    moreover have "id' c \<in> set (map id' ?created)"
      using c by simp
    then have "next_id ?d0 \<le> id' c"
      unfolding ids by simp
    ultimately show "id' e < id' c" by simp
  qed
  have dev: "\<forall>e \<in> set ?created. ev_device_id e = Some (device_id dev)"
    using batch_rows_device by blast
  have fields: "map event_type ?created = map req_type (events request)"
    "map timestamp ?created = map req_timestamp (events request)"
    using batch_rows_fields by blast+
  have len: "length ?created = length (events request)"
    by simp
  show ?thesis
    using res t1 p1 len dev fields sorted dist above by blast
qed

theorem ingest_valid_batch_witness:
  "find (\<lambda>r. api_key r = Some ''K1'' \<and> is_active r = Some True) (devices_table example_db)
     = Some example_device \<and>
   (\<forall>e. flush_error no_faults e = None) \<and>
   commit_error no_faults = None \<and>
   map req_device_id (events example_request) = [''OTHER'', ''OTHER''] \<and>
   fst (post_events 1700000000 no_faults ''K1'' example_request example_db) =
     Inr \<lparr>success = True, processed = 2, message = Some ''Successfully processed 2 events''\<rparr> \<and>
   map id' (events_table (fst (snd (post_events 1700000000 no_faults ''K1'' example_request example_db))))
     = [4, 5, 6] \<and>
   map ev_device_id
     (events_table (fst (snd (post_events 1700000000 no_faults ''K1'' example_request example_db))))
     = [Some ''D'', Some ''D'', Some ''D'']"
proof -
  have auth: "find (\<lambda>r. api_key r = Some ''K1'' \<and> is_active r = Some True) (devices_table example_db)
     = Some example_device"
    by (simp add: example_db_def example_device_def)
  have flush: "\<forall>e. flush_error no_faults e = None"
    by (simp add: no_faults_def)
  have commit: "commit_error no_faults = None"
    by (simp add: no_faults_def)
  have req: "map req_device_id (events example_request) = [''OTHER'', ''OTHER'']"
    by (simp add: example_request_def face_event_def vehicle_event_def)
  show ?thesis
    using ingest_valid_batch [OF auth flush commit, of 1700000000 example_request]
      auth flush commit req example_post_events
    by simp
qed

section \<open>Authentication\<close>

lemma find_split:
  "find P xs = Some x \<Longrightarrow> \<exists>ys zs. xs = ys @ x # zs \<and> P x \<and> (\<forall>y \<in> set ys. \<not> P y)"
proof (induction xs)
  case Nil
  then show ?case by simp
next
  case (Cons a xs)
  show ?case
  proof (cases "P a")
    case True
    then have "x = a" using Cons.prems by simp
    then show ?thesis using True by (intro exI [of _ "[]"] exI [of _ xs]) simp
  next
    case False
    then have "find P xs = Some x" using Cons.prems by simp
    then obtain ys zs where "xs = ys @ x # zs" "P x" "\<forall>y \<in> set ys. \<not> P y"
      using Cons.IH by blast
    then show ?thesis using False by (intro exI [of _ "a # ys"] exI [of _ zs]) simp
  qed
qed

lemma find_at:
  "\<forall>y \<in> set ys. \<not> P y \<Longrightarrow> P x \<Longrightarrow> find P (ys @ x # zs) = Some x"
  by (induction ys) auto

lemma update_first_at:
  "\<forall>y \<in> set ys. \<not> P y \<Longrightarrow> P x \<Longrightarrow> update_first P f (ys @ x # zs) = ys @ f x # zs"
  by (induction ys) auto

lemma db_commit_devices [simp]:
  "devices_table (db_commit d) = devices_table d"
  by (simp add: db_commit_def)

lemma verify_api_key_none:
  assumes "\<forall>r \<in> set (devices_table d). \<not> (api_key r = Some k \<and> is_active r = Some True)"
  shows "verify_api_key now k d = (Inl (HTTPException 401 ''Invalid or inactive API key''), d)"
proof -
  have "find (\<lambda>r. api_key r = Some k \<and> is_active r = Some True) (devices_table d) = None"
    using assms by (simp add: find_None_iff)
  then show ?thesis by (simp add: verify_api_key_def)
qed

lemma verify_api_key_inactive:
  assumes u: "unique_constraints d"
    and r: "r \<in> set (devices_table d)" "api_key r = Some k" "is_active r \<noteq> Some True"
  shows "verify_api_key now k d = (Inl (HTTPException 401 ''Invalid or inactive API key''), d)"
proof (rule verify_api_key_none, rule ballI)
  fix x
  assume x: "x \<in> set (devices_table d)"
  show "\<not> (api_key x = Some k \<and> is_active x = Some True)"
  proof
    assume m: "api_key x = Some k \<and> is_active x = Some True"
    then have "r = x"
      using u r x unfolding unique_constraints_def by auto
    then show False using m r by simp
  qed
qed

lemma verify_api_key_success:
  assumes "verify_api_key now k d = (Inr dev, d1)"
  shows "\<exists>r ys zs. devices_table d = ys @ r # zs \<and>
           api_key r = Some k \<and> is_active r = Some True \<and>
           (\<forall>y \<in> set ys. \<not> (api_key y = Some k \<and> is_active y = Some True)) \<and>
           dev = r\<lparr>last_seen := Some now\<rparr> \<and>
           devices_table d1 = ys @ dev # zs \<and>
           events_table d1 = events_table d @ pending d"
proof -
  let ?P = "\<lambda>r. api_key r = Some k \<and> is_active r = Some True"
  obtain r where f: "find ?P (devices_table d) = Some r"
    using assms by (cases "find ?P (devices_table d)") (simp_all add: verify_api_key_def)
  obtain ys zs where split: "devices_table d = ys @ r # zs" "?P r" "\<forall>y \<in> set ys. \<not> ?P y"
    using find_split [OF f] by blast
  have eq: "verify_api_key now k d =
      (Inr (r\<lparr>last_seen := Some now\<rparr>),
       db_commit (d\<lparr>devices_table := update_first ?P (\<lambda>_. r\<lparr>last_seen := Some now\<rparr>) (devices_table d)\<rparr>))"
    using f by (simp add: verify_api_key_def Let_def)
  have dev: "dev = r\<lparr>last_seen := Some now\<rparr>"
    using assms unfolding eq by auto
  have d1: "d1 = db_commit (d\<lparr>devices_table := update_first ?P (\<lambda>_. r\<lparr>last_seen := Some now\<rparr>) (devices_table d)\<rparr>)"
    using assms unfolding eq by auto
  have "devices_table d1 = ys @ dev # zs"
    using split by (simp add: d1 dev update_first_at)
  moreover have "events_table d1 = events_table d @ pending d"
    by (simp add: d1 db_commit_def)
  ultimately show ?thesis
    using split dev by blast
qed

lemma deactivated_after_use:
  assumes v: "verify_api_key now k d = (Inr dev, d1)"
    and u: "unique_constraints d"
  shows "\<exists>d2. deactivate_device (device_id dev) d1 = (Inr True, d2) \<and>
              verify_api_key now' k d2 = (Inl (HTTPException 401 ''Invalid or inactive API key''), d2)"
proof -
  let ?P = "\<lambda>r. api_key r = Some k \<and> is_active r = Some True"
  let ?Q = "\<lambda>x. device_id x = device_id dev"
  obtain r ys zs where s: "devices_table d = ys @ r # zs" "?P r" "\<forall>y \<in> set ys. \<not> ?P y"
    "dev = r\<lparr>last_seen := Some now\<rparr>" "devices_table d1 = ys @ dev # zs"
    using verify_api_key_success [OF v] by blast
  have dist: "distinct (map device_id (ys @ r # zs))"
    using u s(1) by (simp add: unique_constraints_def)
  have id: "device_id dev = device_id r" by (simp add: s(4))
  have ys_ids: "\<forall>y \<in> set ys. \<not> ?Q y"
    using dist id by (auto simp: image_iff)
  have zs_ids: "\<forall>z \<in> set zs. device_id z \<noteq> device_id r"
    using dist by (auto simp: image_iff)
  let ?dev' = "dev\<lparr>is_active := Some False\<rparr>"
  let ?d2 = "db_commit (d1\<lparr>devices_table := ys @ ?dev' # zs\<rparr>)"
  have "find ?Q (devices_table d1) = Some dev"
    unfolding s(5) by (rule find_at [OF ys_ids]) simp
  moreover have "update_first ?Q (\<lambda>r. r\<lparr>is_active := Some False\<rparr>) (devices_table d1) = ys @ ?dev' # zs"
    unfolding s(5) by (rule update_first_at [OF ys_ids]) simp
  ultimately have de: "deactivate_device (device_id dev) d1 = (Inr True, ?d2)"
    by (simp add: deactivate_device_def)
  have none: "\<forall>x \<in> set (devices_table ?d2). \<not> ?P x"
  proof
    fix x
    assume "x \<in> set (devices_table ?d2)"
    then consider "x \<in> set ys" | "x = ?dev'" | "x \<in> set zs" by auto
    then show "\<not> ?P x"
    proof cases
      case 1
      then show ?thesis using s(3) by blast
    next
      case 2
      then show ?thesis by simp
    next
      case 3
      show ?thesis
      proof
        assume m: "?P x"
        have "x \<in> set (devices_table d)" "r \<in> set (devices_table d)"
          using 3 s(1) by auto
        then have "r = x"
          using u s(2) m unfolding unique_constraints_def by auto
        then show False using 3 zs_ids by blast
      qed
    qed
  qed
  show ?thesis
    using de verify_api_key_none [OF none, of now'] by blast
qed

text \<open>
  C7. With no device whose credential matches and whose active flag is true,
  \<open>verify_api_key\<close> raises the 401 error and changes nothing; under the table's unique
  constraints that is the case for the credential of a device that is not active. When it
  succeeds, the device returned is a matching active row with its last-seen time set to now,
  and that row is in the committed table. Deactivating the device after such a success makes
  the same credential fail with 401 from then on.
\<close>

theorem verify_api_key_unauthorized:
  "((\<forall>r \<in> set (devices_table d). \<not> (api_key r = Some k \<and> is_active r = Some True)) \<longrightarrow>
      verify_api_key now k d = (Inl (HTTPException 401 ''Invalid or inactive API key''), d)) \<and>
   (\<forall>r. unique_constraints d \<and> r \<in> set (devices_table d) \<and> api_key r = Some k \<and>
        is_active r \<noteq> Some True \<longrightarrow>
      verify_api_key now k d = (Inl (HTTPException 401 ''Invalid or inactive API key''), d)) \<and>
   (\<forall>dev d1. verify_api_key now k d = (Inr dev, d1) \<longrightarrow>
      (\<exists>r \<in> set (devices_table d).
         api_key r = Some k \<and> is_active r = Some True \<and> dev = r\<lparr>last_seen := Some now\<rparr>) \<and>
      last_seen dev = Some now \<and>
      dev \<in> set (devices_table d1) \<and>
      map device_id (devices_table d1) = map device_id (devices_table d) \<and>
      (unique_constraints d \<longrightarrow>
         (\<forall>now'. \<exists>d2. deactivate_device (device_id dev) d1 = (Inr True, d2) \<and>
            verify_api_key now' k d2 = (Inl (HTTPException 401 ''Invalid or inactive API key''), d2)))) \<and>
   ((\<exists>r \<in> set (devices_table d). api_key r = Some k \<and> is_active r = Some True) \<longrightarrow>
      (\<exists>dev d1. verify_api_key now k d = (Inr dev, d1)))"
proof (intro conjI allI impI)
  assume "\<forall>r \<in> set (devices_table d). \<not> (api_key r = Some k \<and> is_active r = Some True)"
  then show "verify_api_key now k d = (Inl (HTTPException 401 ''Invalid or inactive API key''), d)"
    by (rule verify_api_key_none)
next
  fix r
  assume "unique_constraints d \<and> r \<in> set (devices_table d) \<and> api_key r = Some k \<and>
        is_active r \<noteq> Some True"
  then show "verify_api_key now k d = (Inl (HTTPException 401 ''Invalid or inactive API key''), d)"
    using verify_api_key_inactive by blast
next
  fix dev d1
  assume v: "verify_api_key now k d = (Inr dev, d1)"
  obtain r ys zs where s: "devices_table d = ys @ r # zs" "api_key r = Some k \<and> is_active r = Some True"
    "dev = r\<lparr>last_seen := Some now\<rparr>" "devices_table d1 = ys @ dev # zs"
    using verify_api_key_success [OF v] by blast
  show "\<exists>r \<in> set (devices_table d).
         api_key r = Some k \<and> is_active r = Some True \<and> dev = r\<lparr>last_seen := Some now\<rparr>"
    using s by auto
  show "last_seen dev = Some now" using s by simp
  show "dev \<in> set (devices_table d1)" using s by simp
  show "map device_id (devices_table d1) = map device_id (devices_table d)" using s by simp
  fix now'
  assume "unique_constraints d"
  then show "\<exists>d2. deactivate_device (device_id dev) d1 = (Inr True, d2) \<and>
            verify_api_key now' k d2 = (Inl (HTTPException 401 ''Invalid or inactive API key''), d2)"
    using deactivated_after_use [OF v] by blast
next
  assume "\<exists>r \<in> set (devices_table d). api_key r = Some k \<and> is_active r = Some True"
  then have "find (\<lambda>r. api_key r = Some k \<and> is_active r = Some True) (devices_table d) \<noteq> None"
    by (auto simp: find_None_iff)
  then show "\<exists>dev d1. verify_api_key now k d = (Inr dev, d1)"
    by (auto simp: verify_api_key_def Let_def)
qed

theorem verify_api_key_unauthorized_witness:
  "verify_api_key 1700000000 ''WRONG'' example_db
     = (Inl (HTTPException 401 ''Invalid or inactive API key''), example_db) \<and>
   unique_constraints inactive_db \<and>
   verify_api_key 1700000000 ''K1'' inactive_db
     = (Inl (HTTPException 401 ''Invalid or inactive API key''), inactive_db) \<and>
   unique_constraints example_db \<and>
   fst (verify_api_key 1700000000 ''K1'' example_db)
     = Inr (example_device\<lparr>last_seen := Some 1700000000\<rparr>) \<and>
   (\<exists>d2. deactivate_device ''D'' (snd (verify_api_key 1700000000 ''K1'' example_db)) = (Inr True, d2) \<and>
         verify_api_key 1700000001 ''K1'' d2
           = (Inl (HTTPException 401 ''Invalid or inactive API key''), d2))"
proof -
  have u: "unique_constraints example_db" "unique_constraints inactive_db"
    by (simp_all add: unique_constraints_def example_db_def inactive_db_def)
  have v: "verify_api_key 1700000000 ''K1'' example_db =
     (Inr (example_device\<lparr>last_seen := Some 1700000000\<rparr>),
      example_db\<lparr>devices_table := [example_device\<lparr>last_seen := Some 1700000000\<rparr>]\<rparr>)"
    by (simp add: verify_api_key_def example_db_def example_device_def db_commit_def Let_def)
  have id: "device_id (example_device\<lparr>last_seen := Some 1700000000\<rparr>) = ''D''"
    by (simp add: example_device_def)
  have a: "verify_api_key 1700000000 ''WRONG'' example_db
     = (Inl (HTTPException 401 ''Invalid or inactive API key''), example_db)"
    using verify_api_key_unauthorized [of example_db "''WRONG''" 1700000000]
    by (simp add: example_db_def example_device_def)
  have b: "verify_api_key 1700000000 ''K1'' inactive_db
     = (Inl (HTTPException 401 ''Invalid or inactive API key''), inactive_db)"
    using verify_api_key_unauthorized [of inactive_db "''K1''" 1700000000] u
    by (simp add: inactive_db_def example_db_def example_device_def)
  have c: "\<exists>d2. deactivate_device ''D'' (snd (verify_api_key 1700000000 ''K1'' example_db)) = (Inr True, d2) \<and>
         verify_api_key 1700000001 ''K1'' d2
           = (Inl (HTTPException 401 ''Invalid or inactive API key''), d2)"
    using verify_api_key_unauthorized [of example_db "''K1''" 1700000000] u v id
    by auto
  show ?thesis
    using a b c u v by simp
qed

section \<open>What the ingestion route schedules\<close>

text \<open>
  The second loop schedules a push notification only for the two types of the list in
  \<^verbatim>\<open>create_events\<close>.
\<close>

lemma fan_out_alert_types:
  "Send_alert_notification t details i \<in> set (fan_out d evs acc) \<Longrightarrow>
   Send_alert_notification t details i \<in> set acc \<or> t \<in> set alert_types_events"
proof (induction evs arbitrary: acc)
  case Nil
  then show ?case by simp
next
  case (Cons ev evs)
  let ?tasks1 = "acc @ [Broadcast_event (event_dict ev (employee_name_of d ev))]"
  let ?push = "Send_alert_notification (event_type ev)
                 (details_of (employee_name_of d ev) (license_plate ev)) (int (id' ev))"
  show ?case
  proof (cases "event_type ev \<in> set alert_types_events")
    case True
    then have "Send_alert_notification t details i \<in> set (fan_out d evs (?tasks1 @ [?push]))"
      using Cons.prems by (simp add: Let_def)
    then have "Send_alert_notification t details i \<in> set (?tasks1 @ [?push]) \<or>
               t \<in> set alert_types_events"
      by (rule Cons.IH)
    then show ?thesis using True by auto
  next
    case False
    then have "Send_alert_notification t details i \<in> set (fan_out d evs ?tasks1)"
      using Cons.prems by (simp add: Let_def)
    then have "Send_alert_notification t details i \<in> set ?tasks1 \<or> t \<in> set alert_types_events"
      by (rule Cons.IH)
    then show ?thesis by auto
  qed
qed

text \<open>
  C1, at a batch of one \<^verbatim>\<open>VEHICLE_ENTERED\<close> event from an active device: the only task scheduled
  is the broadcast. In the two-event batch the face event gets its push notification and the
  vehicle event does not, although the table of \<open>send_alert_notification\<close> has a title and a
  body for \<^verbatim>\<open>VEHICLE_ENTERED\<close>.
\<close>

theorem vehicle_event_schedules_no_push:
  "snd (snd (post_events 1700000000 no_faults ''K1'' vehicle_request example_db)) =
     [Broadcast_event
        [(''id'', JNum 5), (''event_type'', JStr ''VEHICLE_ENTERED''), (''timestamp'', JNum 1001),
         (''employee_name'', JNull), (''license_plate'', JStr ''KA-01''), (''duration'', JNum 0)]] \<and>
   snd (snd (post_events 1700000000 no_faults ''K1'' example_request example_db)) =
     [Broadcast_event
        [(''id'', JNum 5), (''event_type'', JStr ''UNKNOWN_FACE_DETECTED''), (''timestamp'', JNum 1000),
         (''employee_name'', JNull), (''license_plate'', JNull), (''duration'', JNum 500)],
      Send_alert_notification ''UNKNOWN_FACE_DETECTED'' '''' 5,
      Broadcast_event
        [(''id'', JNum 6), (''event_type'', JStr ''VEHICLE_ENTERED''), (''timestamp'', JNum 1001),
         (''employee_name'', JNull), (''license_plate'', JStr ''KA-01''), (''duration'', JNum 0)]] \<and>
   map_of alert_types ''VEHICLE_ENTERED''
     = Some (''Vehicle Entered'', ''A vehicle has entered the premises'')"
  unfolding post_events_def example_verify
  by (simp add: create_events_def example_request_def
      vehicle_request_def no_faults_def next_id_def example_db_def example_device_def
      build_event_def face_event_def vehicle_event_def db_commit_def db_close_def Let_def
      employee_name_of_def truthy_def event_dict_def json_opt_def alert_types_events_def
      details_of_def alert_types_def)

end
